theory Spec2Isabelle
  imports Complex_Main
begin

section \<open>Errors\<close>

text \<open>
  The Python exceptions that the modelled code can raise, as values. A fallible
  operation returns \<open>error + 'a\<close>, with \<open>Inl\<close> for the raised exception.
  \<open>NotModelled\<close> is no exception: it marks the operands that the tensor library
  would broadcast against each other (or refuse to), which the tensors below do
  not cover.
\<close>

datatype error =
    IndexError
  | ZeroDivisionError
  | ValueError
  | AssertionError
  | RuntimeError
  | NotModelled

section \<open>The walk-back chain (\<open>nnu/nn/autoencoder/DAE.py\<close>)\<close>

subsection \<open>The chain generator\<close>

text \<open>
  \<^verbatim>\<open>
  def chain(x, model, corrupt, n=5):
      def _chain(x):
          c = corrupt(x)
          yield c
          for i in range(n - 1):
              x = model(c)
              c = corrupt(x)
              yield c
      return [c for c in _chain(x)]
  \<close>
  The two collaborators \<open>model\<close> and \<open>corrupt\<close> are taken as functions on tensors
  of an arbitrary type \<open>'t\<close>: what they return is determined by their argument,
  and they return. The generator is consumed whole, so it is the list of the
  values it yields. \<open>chain_loop\<close> is the \<open>for\<close> loop with the number of
  iterations still to run and the current value of \<open>c\<close>; \<open>range(n - 1)\<close> runs
  \<open>nat (n - 1)\<close> times, which is no time at all when \<open>n \<le> 1\<close>.
\<close>

fun chain_loop :: "('t \<Rightarrow> 't) \<Rightarrow> ('t \<Rightarrow> 't) \<Rightarrow> nat \<Rightarrow> 't \<Rightarrow> 't list" where
  "chain_loop model corrupt 0 c = []"
| "chain_loop model corrupt (Suc k) c =
     (let x = model c;
          c' = corrupt x
      in c' # chain_loop model corrupt k c')"

definition chain :: "'t \<Rightarrow> ('t \<Rightarrow> 't) \<Rightarrow> ('t \<Rightarrow> 't) \<Rightarrow> int \<Rightarrow> 't list" where
  "chain x model corrupt n =
     (let c = corrupt x
      in c # chain_loop model corrupt (nat (n - 1)) c)"

subsection \<open>Indexing and batching\<close>

text \<open>
  Indexing a Python list, and indexing a tensor along its first axis, with an
  integer: a negative index counts from the end, and an index out of range
  raises \<open>IndexError\<close>. A batch tensor is modelled as the list of its rows, so
  both kinds of indexing are this one function. \<open>and_then\<close> runs the rest of a
  function body after a step that may raise.
\<close>

definition and_then :: "error + 'a \<Rightarrow> ('a \<Rightarrow> error + 'b) \<Rightarrow> error + 'b" where
  "and_then r f = (case r of Inl e \<Rightarrow> Inl e | Inr v \<Rightarrow> f v)"

definition list_getitem :: "'a list \<Rightarrow> int \<Rightarrow> error + 'a" where
  "list_getitem xs i =
     (let j = (if i < 0 then i + int (length xs) else i)
      in if 0 \<le> j \<and> j < int (length xs) then Inr (xs ! nat j) else Inl IndexError)"

text \<open>
  \<^verbatim>\<open>DataLoader(x, batch_size=batch_size, shuffle=False)\<close> of the tensor library,
  iterated once: the samples in their order, cut into batches of \<open>batch_size\<close>,
  the last batch holding what is left (no batch is dropped, none is empty).
  The library refuses a batch size that is not positive; \<open>WalkbackDataset_init\<close>
  below makes that check before it calls this function.
\<close>

function DataLoader :: "nat \<Rightarrow> 'a list \<Rightarrow> 'a list list" where
  "DataLoader batch_size x =
     (if batch_size = 0 \<or> x = [] then []
      else take batch_size x # DataLoader batch_size (drop batch_size x))"
  by pat_completeness auto
termination
  by (relation "measure (\<lambda>(batch_size, x). length x)") auto

declare DataLoader.simps [simp del]

subsection \<open>The dataset\<close>

text \<open>
  The fields of a \<open>WalkbackDataset\<close> object. \<open>self_data\<close> is the list of the
  records \<open>(batch_x, chain)\<close>. The devices (\<open>self.device\<close>,
  \<open>self.model_device\<close>) are left out: moving a tensor to a device does not
  change its value.
\<close>

record 'a WalkbackDataset =
  self_model :: "'a list \<Rightarrow> 'a list"
  self_corrupt :: "'a list \<Rightarrow> 'a list"
  self_n :: int
  self_batch_size :: int
  self_data :: "('a list \<times> 'a list list) list"

text \<open>
  \<^verbatim>\<open>
  def _chain(self, x): # compute the walkback chain for a batch
      yield x # keep the original as part of the dataset
      x = x.to(self.model_device, non_blocking=True)
      c = self.corrupt(x)
      yield c
      for i in range(self.n - 2):
          x = self.model(c)
          c = self.corrupt(x)
          yield c
  \<close>
\<close>

fun WalkbackDataset_chain_loop :: "'a WalkbackDataset \<Rightarrow> nat \<Rightarrow> 'a list \<Rightarrow> 'a list list" where
  "WalkbackDataset_chain_loop self 0 c = []"
| "WalkbackDataset_chain_loop self (Suc k) c =
     (let x = self_model self c;
          c' = self_corrupt self x
      in c' # WalkbackDataset_chain_loop self k c')"

definition WalkbackDataset_chain :: "'a WalkbackDataset \<Rightarrow> 'a list \<Rightarrow> 'a list list" where
  "WalkbackDataset_chain self x =
     x # (let c = self_corrupt self x
          in c # WalkbackDataset_chain_loop self (nat (self_n self - 2)) c)"

text \<open>
  \<^verbatim>\<open>
  def __init__(self, x, model, corrupt, n=5, batch_size=256, device="cpu"):
      self.model = model
      self.corrupt = corrupt
      self.n = 2 + n
      self.batch_size = batch_size
      self.data = []
      ...
      loader = DataLoader(x, batch_size=batch_size, shuffle=False)
      with torch.no_grad():
          for batch_x, in loader:
              batch_x = batch_x.to(self.device, non_blocking=True)
              chain = [c.to(self.device, non_blocking=True) for c in self._chain(batch_x)]
              self.data.append((batch_x, chain))
  \<close>
  The base collection \<open>x\<close> is the list of its samples. The loop appends one
  record for each batch, in the order of the loader.
\<close>

definition WalkbackDataset_init ::
  "'a list \<Rightarrow> ('a list \<Rightarrow> 'a list) \<Rightarrow> ('a list \<Rightarrow> 'a list) \<Rightarrow> int \<Rightarrow> int \<Rightarrow> error + 'a WalkbackDataset" where
  "WalkbackDataset_init x model corrupt n batch_size =
     (let self = \<lparr> self_model = model, self_corrupt = corrupt, self_n = 2 + n,
                   self_batch_size = batch_size, self_data = [] \<rparr>
      in if batch_size \<le> 0 then Inl ValueError
         else Inr (self \<lparr> self_data :=
                 map (\<lambda>batch_x. (batch_x, WalkbackDataset_chain self batch_x))
                     (DataLoader (nat batch_size) x) \<rparr>))"

text \<open>
  \<^verbatim>\<open>
  def __len__(self):
      return ((len(self.data) - 1) * (self.batch_size) * self.n) + (self.n * len(self.data[-1][0]))
  \<close>
  \<open>self.data[-1]\<close> raises \<open>IndexError\<close> when no batch was stored.
\<close>

definition WalkbackDataset_len :: "'a WalkbackDataset \<Rightarrow> error + int" where
  "WalkbackDataset_len self =
     (case list_getitem (self_data self) (- 1) of
        Inl e \<Rightarrow> Inl e
      | Inr last_record \<Rightarrow>
          Inr (((int (length (self_data self)) - 1) * self_batch_size self * self_n self)
               + (self_n self * int (length (fst last_record)))))"

text \<open>
  The builtin \<open>len(self)\<close>: it calls \<open>__len__\<close> and raises \<open>ValueError\<close> when the
  method returns a negative number.
\<close>

definition len :: "'a WalkbackDataset \<Rightarrow> error + int" where
  "len self =
     (case WalkbackDataset_len self of
        Inl e \<Rightarrow> Inl e
      | Inr l \<Rightarrow> if l < 0 then Inl ValueError else Inr l)"

text \<open>
  \<^verbatim>\<open>
  def __getitem__(self, i):
      if 0 > i > len(self):
          raise IndexError()
      batch_size = self.batch_size
      b_index = i // (batch_size * self.n)
      i = i % (batch_size * self.n)
      batch_size = len(self.data[b_index][0]) # handle edge case if last batch
      c_index = i // batch_size
      e_index = i % batch_size
      y, x = self.data[b_index]
      x = x[c_index][e_index]
      y = y[e_index]
      return x, y
  \<close>
  The chained comparison \<open>0 > i > len(self)\<close> is \<open>0 > i and i > len(self)\<close>:
  \<open>len(self)\<close> is evaluated only when \<open>i\<close> is negative. \<open>//\<close> and \<open>%\<close> on Python
  integers round towards minus infinity, as \<open>div\<close> and \<open>mod\<close> on \<open>int\<close> do, and
  raise \<open>ZeroDivisionError\<close> on a zero divisor.
\<close>

definition range_check :: "'a WalkbackDataset \<Rightarrow> int \<Rightarrow> error + bool" where
  "range_check self i =
     (if 0 > i
      then (case len self of Inl e \<Rightarrow> Inl e | Inr l \<Rightarrow> Inr (i > l))
      else Inr False)"

definition WalkbackDataset_getitem :: "'a WalkbackDataset \<Rightarrow> int \<Rightarrow> error + ('a \<times> 'a)" where
  "WalkbackDataset_getitem self i =
     (case range_check self i of
        Inl e \<Rightarrow> Inl e
      | Inr True \<Rightarrow> Inl IndexError
      | Inr False \<Rightarrow>
          (let batch_size = self_batch_size self
           in if batch_size * self_n self = 0 then Inl ZeroDivisionError
              else
                (let b_index = i div (batch_size * self_n self);
                     i = i mod (batch_size * self_n self)
                 in case list_getitem (self_data self) b_index of
                      Inl e \<Rightarrow> Inl e
                    | Inr (y, x) \<Rightarrow>
                        (let batch_size = int (length y)
                         in if batch_size = 0 then Inl ZeroDivisionError
                            else
                              (let c_index = i div batch_size;
                                   e_index = i mod batch_size
                               in case list_getitem x c_index of
                                    Inl e \<Rightarrow> Inl e
                                  | Inr c \<Rightarrow>
                                      (case list_getitem c e_index of
                                         Inl e \<Rightarrow> Inl e
                                       | Inr x' \<Rightarrow>
                                           (case list_getitem y e_index of
                                              Inl e \<Rightarrow> Inl e
                                            | Inr y' \<Rightarrow> Inr (x', y'))))))))"

subsection \<open>The flat index space, by enumeration\<close>

text \<open>
  The pairs of the dataset as the data model lists them: batch after batch,
  within a batch one chain position after the other, within a chain position
  one batch element after the other. This definition does no index arithmetic;
  \<open>WalkbackDataset_getitem\<close> is compared with it.
\<close>

definition enumerate_record :: "'a list \<times> 'a list list \<Rightarrow> ('a \<times> 'a) list" where
  "enumerate_record r =
     (case r of (y, x) \<Rightarrow>
        concat (map (\<lambda>c. map (\<lambda>e. (c ! e, y ! e)) [0..<length y]) x))"

definition enumerate_dataset :: "'a WalkbackDataset \<Rightarrow> ('a \<times> 'a) list" where
  "enumerate_dataset self = concat (map enumerate_record (self_data self))"

section \<open>The stochastic layers (\<open>nnu/nn/module/sample.py\<close>)\<close>

subsection \<open>Tensors\<close>

text \<open>
  A tensor of the library is its shape and its elements in row-major order,
  which is how a contiguous tensor is stored; it is well formed when it has as
  many elements as its shape says. The elements are real numbers. What is
  proved about tensors below is either about their shapes, which no arithmetic
  on the elements touches, or a statement in real arithmetic; the value that a
  function returns after the rounding of floating-point arithmetic is not
  covered.
\<close>

record tensor =
  shape :: "nat list"
  elems :: "real list"

definition numel :: "tensor \<Rightarrow> nat" where
  "numel t = prod_list (shape t)"

definition well_formed :: "tensor \<Rightarrow> bool" where
  "well_formed t \<longleftrightarrow> length (elems t) = numel t"

text \<open>
  \<open>t.reshape(-1, d)\<close>: the library infers the first dimension from the number of
  elements, and raises \<open>RuntimeError\<close> when \<open>d\<close> is zero or does not divide it.
  \<open>t.view(s)\<close> raises \<open>RuntimeError\<close> when \<open>s\<close> has another number of elements.
  Neither changes the elements or their order.
\<close>

definition reshape_rows :: "tensor \<Rightarrow> nat \<Rightarrow> error + tensor" where
  "reshape_rows t d =
     (if d = 0 \<or> numel t mod d \<noteq> 0 then Inl RuntimeError
      else Inr (t \<lparr> shape := [numel t div d, d] \<rparr>))"

definition view :: "tensor \<Rightarrow> nat list \<Rightarrow> error + tensor" where
  "view t s =
     (if prod_list s = numel t then Inr (t \<lparr> shape := s \<rparr>) else Inl RuntimeError)"

text \<open>
  Arithmetic on tensors works element by element. \<open>pointwise2\<close> is for two
  tensors of the same shape; every function below checks the shapes of the
  tensors it is given before it combines them.
\<close>

definition pointwise :: "(real \<Rightarrow> real) \<Rightarrow> tensor \<Rightarrow> tensor" where
  "pointwise f t = t \<lparr> elems := map f (elems t) \<rparr>"

definition pointwise2 :: "(real \<Rightarrow> real \<Rightarrow> real) \<Rightarrow> tensor \<Rightarrow> tensor \<Rightarrow> tensor" where
  "pointwise2 f a b = a \<lparr> elems := map2 f (elems a) (elems b) \<rparr>"

text \<open>
  The last axis: row \<open>r\<close> of a tensor is the \<open>r\<close>-th run of as many elements as
  the last dimension has, and there are as many rows as the product of the
  other dimensions. \<open>sum_last\<close> is \<open>t.sum(dim=-1)\<close>, which leaves a tensor
  without axes as it is.
\<close>

definition row :: "tensor \<Rightarrow> nat \<Rightarrow> real list" where
  "row t r = take (last (shape t)) (drop (r * last (shape t)) (elems t))"

definition rows :: "tensor \<Rightarrow> real list list" where
  "rows t = map (row t) [0..<prod_list (butlast (shape t))]"

definition sum_last :: "tensor \<Rightarrow> tensor" where
  "sum_last t =
     (if shape t = [] then t
      else \<lparr> shape = butlast (shape t), elems = map sum_list (rows t) \<rparr>)"

subsection \<open>Shapes and embeddings\<close>

text \<open>
  Modelled from the spec: \<open>as_shape\<close> of \<open>nnu/nn/shape.py\<close>, which is not among
  the sources. The spec has it normalise a shape specification, a scalar or a
  sequence, into the canonical tuple form: a scalar \<open>d\<close> is the shape \<open>(d,)\<close>,
  and a sequence is its own elements.
\<close>

datatype shape_spec = Scalar nat | Sequence "nat list"

fun as_shape :: "shape_spec \<Rightarrow> nat list" where
  "as_shape (Scalar d) = [d]"
| "as_shape (Sequence ds) = ds"

text \<open>
  An embedding is a table with one row of \<open>embedding_dim\<close> numbers for each
  index. \<open>Embedding\<close> is \<open>torch.nn.Embedding\<close>, whose table is drawn at random
  when it is built: the table drawn is the argument \<open>w\<close>.
\<close>

record embedding =
  embedding_dim :: nat
  weight :: "real list list"

definition Embedding :: "nat \<Rightarrow> nat \<Rightarrow> real list list \<Rightarrow> embedding" where
  "Embedding num_embeddings d w = \<lparr> embedding_dim = d, weight = w \<rparr>"

text \<open>
  Modelled from the spec: \<open>OneHotEmbedding\<close> of \<open>nnu/nn/module/embed.py\<close>, which
  is not among the sources. The spec has it a fixed one-hot embedding: the row
  of index \<open>i\<close> is \<open>1\<close> at position \<open>i\<close> and \<open>0\<close> elsewhere.
\<close>

definition one_hot :: "nat \<Rightarrow> nat \<Rightarrow> real list" where
  "one_hot d i = map (\<lambda>j. if j = i then 1 else 0) [0..<d]"

definition OneHotEmbedding :: "nat \<Rightarrow> embedding" where
  "OneHotEmbedding d = \<lparr> embedding_dim = d, weight = map (one_hot d) [0..<d] \<rparr>"

subsection \<open>\<open>CategoricalStraightThrough\<close>\<close>

text \<open>
  \<^verbatim>\<open>
  def __init__(self, latent_shape, normalise=False, onehot=True):
      super().__init__()
      self.latent_shape = latent_shape = as_shape(latent_shape)
      assert len(latent_shape) == 1
      self.normalise = normalise
      if onehot:
          self.embed = OneHotEmbedding(latent_shape[0])
      else:
          self.embed = nn.Embedding(latent_shape[0], latent_shape[0])
  \<close>
\<close>

record CategoricalStraightThrough =
  cst_latent_shape :: "nat list"
  cst_normalise :: bool
  cst_embed :: embedding

definition CategoricalStraightThrough_init ::
  "real list list \<Rightarrow> shape_spec \<Rightarrow> bool \<Rightarrow> bool \<Rightarrow> error + CategoricalStraightThrough" where
  "CategoricalStraightThrough_init w latent_shape normalise onehot =
     (let latent_shape = as_shape latent_shape
      in if length latent_shape \<noteq> 1 then Inl AssertionError
         else Inr \<lparr> cst_latent_shape = latent_shape,
                    cst_normalise = normalise,
                    cst_embed = (if onehot then OneHotEmbedding (latent_shape ! 0)
                                 else Embedding (latent_shape ! 0) (latent_shape ! 0) w) \<rparr>)"

text \<open>
  The method \<open>forward\<close> of this layer is not embedded. The value it returns,
  \<open>sample + probs - probs.detach()\<close> with \<open>probs\<close> a \<open>softmax\<close>, is the result of
  floating-point additions and subtractions whose rounding decides it, and
  tensors of real numbers would give it another value.
\<close>

subsection \<open>\<open>DiagonalGuassian\<close>\<close>

text \<open>
  \<^verbatim>\<open>
  def __init__(self, latent_shape):
      super().__init__()
      self.latent_shape = latent_shape = as_shape(latent_shape)
      if len(latent_shape) != 1:
          raise ValueError("Invalid latent shape {0}, must be (d,) ...".format(latent_shape))
  \<close>
\<close>

record DiagonalGuassian =
  dg_latent_shape :: "nat list"

definition DiagonalGuassian_init :: "shape_spec \<Rightarrow> error + DiagonalGuassian" where
  "DiagonalGuassian_init latent_shape =
     (let latent_shape = as_shape latent_shape
      in if length latent_shape \<noteq> 1 then Inl ValueError
         else Inr \<lparr> dg_latent_shape = latent_shape \<rparr>)"

text \<open>
  \<^verbatim>\<open>
  def forward(self, mu, logvar):
      assert mu.shape == logvar.shape
      original_shape = mu.shape
      mu     = mu.reshape(-1, self.latent_shape[0])
      logvar = logvar.reshape(-1, self.latent_shape[0])
      sample = torch.empty_like(mu).normal_() * torch.exp(logvar / 2.) + mu
      return sample.view(original_shape), mu, logvar
  \<close>
  The noise is the argument \<open>noise\<close>: \<open>noise k\<close> is the standard normal number
  drawn for element \<open>k\<close> of \<open>torch.empty_like(mu)\<close>.
\<close>

definition normal :: "(nat \<Rightarrow> real) \<Rightarrow> tensor \<Rightarrow> tensor" where
  "normal noise t = t \<lparr> elems := map noise [0..<numel t] \<rparr>"

definition DiagonalGuassian_forward ::
  "DiagonalGuassian \<Rightarrow> (nat \<Rightarrow> real) \<Rightarrow> tensor \<Rightarrow> tensor \<Rightarrow> error + (tensor \<times> tensor \<times> tensor)" where
  "DiagonalGuassian_forward self noise mu logvar =
     (if shape mu \<noteq> shape logvar then Inl AssertionError
      else
        (let original_shape = shape mu
         in and_then (list_getitem (dg_latent_shape self) 0) (\<lambda>d.
            and_then (reshape_rows mu d) (\<lambda>mu.
            and_then (reshape_rows logvar d) (\<lambda>logvar.
              let sample = pointwise2 (+)
                             (pointwise2 (*) (normal noise mu)
                                (pointwise exp (pointwise (\<lambda>v. v / 2) logvar)))
                             mu
              in and_then (view sample original_shape) (\<lambda>sample.
                 Inr (sample, mu, logvar)))))))"

text \<open>
  \<^verbatim>\<open>
  def kl_divergence(mu1, logvar1, mu2=None, logvar2=None):
      if mu2 is None or logvar2 is None: # kl_divergence [ N(mu1, logvar1.exp()) || N(0,1)]
          assert mu2 is None and logvar2 is None # ??
          return ((mu1 ** 2 + logvar1.exp() - logvar1).sum(dim=-1) - mu1.shape[-1]) / 2
      ivar2 = 1. / logvar2.exp()
      dmu = (mu1 - mu2)
      return ((logvar1 - logvar2 + dmu * ivar2 * dmu + ivar2 * logvar1.exp()).sum(dim=-1) - mu1.shape[-1]) / 2
  \<close>
  The source does not compare the shapes of its arguments. The model covers
  arguments of one and the same shape and answers \<open>NotModelled\<close> for the others.
  \<open>mu1.shape[-1]\<close> raises \<open>IndexError\<close> for a tensor without axes.
\<close>

definition kl_divergence ::
  "tensor \<Rightarrow> tensor \<Rightarrow> tensor option \<Rightarrow> tensor option \<Rightarrow> error + tensor" where
  "kl_divergence mu1 logvar1 mu2 logvar2 =
     (if mu2 = None \<or> logvar2 = None
      then
        (if \<not> (mu2 = None \<and> logvar2 = None) then Inl AssertionError
         else if shape logvar1 \<noteq> shape mu1 then Inl NotModelled
         else
           (let s = sum_last (pointwise2 (-)
                      (pointwise2 (+) (pointwise (\<lambda>v. v ^ 2) mu1) (pointwise exp logvar1))
                      logvar1)
            in and_then (list_getitem (shape mu1) (- 1)) (\<lambda>d.
               Inr (pointwise (\<lambda>v. v / 2) (pointwise (\<lambda>v. v - real d) s)))))
      else
        (let mu2 = the mu2; logvar2 = the logvar2
         in if shape logvar1 \<noteq> shape mu1 \<or> shape mu2 \<noteq> shape mu1 \<or> shape logvar2 \<noteq> shape mu1
            then Inl NotModelled
            else
              (let ivar2 = pointwise (\<lambda>v. 1 / v) (pointwise exp logvar2);
                   dmu = pointwise2 (-) mu1 mu2;
                   s = sum_last (pointwise2 (+)
                         (pointwise2 (+) (pointwise2 (-) logvar1 logvar2)
                            (pointwise2 (*) (pointwise2 (*) dmu ivar2) dmu))
                         (pointwise2 (*) ivar2 (pointwise exp logvar1)))
               in and_then (list_getitem (shape mu1) (- 1)) (\<lambda>d.
                  Inr (pointwise (\<lambda>v. v / 2) (pointwise (\<lambda>v. v - real d) s))))))"

section \<open>Properties of the chain generator\<close>

lemma length_chain_loop: "length (chain_loop model corrupt k c) = k"
  by (induction k arbitrary: c) (simp_all add: Let_def)

lemma chain_loop_step:
  "i < k \<Longrightarrow>
   chain_loop model corrupt k c ! i =
     corrupt (model ((c # chain_loop model corrupt k c) ! i))"
proof (induction k arbitrary: c i)
  case 0
  then show ?case by simp
next
  case (Suc k)
  show ?case
  proof (cases i)
    case 0
    then show ?thesis by (simp add: Let_def)
  next
    case (Suc j)
    with Suc.prems have "j < k" by simp
    from Suc.IH [OF this] Suc show ?thesis by (simp add: Let_def)
  qed
qed

lemma chain_loop_shape:
  assumes "\<And>t. shape_of (corrupt t) = shape_of t" and "\<And>t. shape_of (model t) = shape_of t"
  shows "t \<in> set (chain_loop model corrupt k c) \<Longrightarrow> shape_of t = shape_of c"
proof (induction k arbitrary: c)
  case 0
  then show ?case by simp
next
  case (Suc k)
  from Suc.prems have "t = corrupt (model c)
      \<or> t \<in> set (chain_loop model corrupt k (corrupt (model c)))"
    by (simp add: Let_def)
  then show ?case
  proof
    assume "t = corrupt (model c)"
    then show ?thesis using assms by simp
  next
    assume "t \<in> set (chain_loop model corrupt k (corrupt (model c)))"
    from Suc.IH [OF this] show ?thesis using assms by simp
  qed
qed

text \<open>
  Claim C4, as it is written, promises exactly \<open>n\<close> elements for every depth
  \<open>n\<close> and the shape of the seed for every step function. The generator yields
  the first corruption before its loop, so a depth of zero still gives one
  element; and a step function that changes the shape of its argument changes
  the shape of the elements after the first, although the corruption function
  preserves shapes (\<open>id\<close> here, with the length of a list as its shape).
\<close>

theorem chain_contract_counterexample:
  "length (chain [1::int, 2] tl id 0) \<noteq> nat 0
   \<and> length (chain [1::int, 2] tl id 2) = nat 2
   \<and> length (chain [1::int, 2] tl id 2 ! 1) \<noteq> length [1::int, 2]"
  by (simp add: chain_def Let_def numeral_2_eq_2)


text \<open>
  C4 (amended): for every seed \<open>x\<close>, step function \<open>model\<close>, corruption function
  \<open>corrupt\<close> and depth \<open>n\<close>, the chain generator returns \<open>max 1 n\<close> elements, which
  is exactly \<open>n\<close> elements for every \<open>n \<ge> 1\<close>; element \<open>0\<close> is \<open>corrupt x\<close>, and
  every later element \<open>i\<close> is \<open>corrupt\<close> of \<open>model\<close> of element \<open>i - 1\<close>. When both
  \<open>corrupt\<close> and \<open>model\<close> preserve the shape of their argument, whatever the
  shape function \<open>shape_of\<close> is, every element has the shape of the seed.
\<close>

theorem chain_contract:
  "length (chain x model corrupt n) = nat (max 1 n)
   \<and> chain x model corrupt n ! 0 = corrupt x
   \<and> (\<forall>i. 1 \<le> i \<and> i < nat (max 1 n) \<longrightarrow>
          chain x model corrupt n ! i = corrupt (model (chain x model corrupt n ! (i - 1))))
   \<and> ((\<forall>t. shape_of (corrupt t) = shape_of t) \<and> (\<forall>t. shape_of (model t) = shape_of t) \<longrightarrow>
          (\<forall>c \<in> set (chain x model corrupt n). shape_of c = shape_of x))"
proof (intro conjI allI impI ballI)
  show "length (chain x model corrupt n) = nat (max 1 n)"
    by (auto simp add: chain_def Let_def length_chain_loop max_def)
  show "chain x model corrupt n ! 0 = corrupt x"
    by (simp add: chain_def Let_def)
next
  fix i
  assume i: "1 \<le> i \<and> i < nat (max 1 n)"
  then obtain j where j: "i = Suc j" by (cases i) auto
  with i have "j < nat (n - 1)" by (auto simp: max_def split: if_splits)
  from chain_loop_step [OF this, of model corrupt "corrupt x"] j
  show "chain x model corrupt n ! i = corrupt (model (chain x model corrupt n ! (i - 1)))"
    by (simp add: chain_def Let_def)
next
  fix c
  assume pres: "(\<forall>t. shape_of (corrupt t) = shape_of t) \<and> (\<forall>t. shape_of (model t) = shape_of t)"
    and c: "c \<in> set (chain x model corrupt n)"
  from c have "c = corrupt x \<or> c \<in> set (chain_loop model corrupt (nat (n - 1)) (corrupt x))"
    by (simp add: chain_def Let_def)
  then show "shape_of c = shape_of x"
  proof
    assume "c = corrupt x"
    with pres show ?thesis by simp
  next
    assume "c \<in> set (chain_loop model corrupt (nat (n - 1)) (corrupt x))"
    from chain_loop_shape [of shape_of corrupt model, OF _ _ this] pres
    show ?thesis by simp
  qed
qed


text \<open>
  The contract at depth \<open>3\<close>, with list reversal as step function and pointwise
  negation as corruption function, both of which preserve the length.
\<close>

theorem chain_contract_witness:
  "length (chain [1::int, 2] rev (map uminus) 3) = 3
   \<and> chain [1::int, 2] rev (map uminus) 3 ! 0 = [-1, -2]
   \<and> chain [1::int, 2] rev (map uminus) 3 ! 1 = map uminus (rev (chain [1::int, 2] rev (map uminus) 3 ! 0))
   \<and> chain [1::int, 2] rev (map uminus) 3 ! 2 = map uminus (rev (chain [1::int, 2] rev (map uminus) 3 ! 1))
   \<and> length (chain [1::int, 2] rev (map uminus) 3 ! 2) = length [1::int, 2]"
proof -
  note c = chain_contract [of "[1::int, 2]" rev "map uminus" 3 length]
  have "chain [1::int, 2] rev (map uminus) 3 ! 2 \<in> set (chain [1::int, 2] rev (map uminus) 3)"
    using c by (intro nth_mem) simp
  with c show ?thesis by (simp add: numeral_2_eq_2)
qed


section \<open>Properties of the batches\<close>

text \<open>
  The loader keeps the samples and their order, every batch but the last has
  \<open>batch_size\<close> samples, and the last has between one and \<open>batch_size\<close>.
\<close>

lemma DataLoader_Nil: "batch_size = 0 \<or> x = [] \<Longrightarrow> DataLoader batch_size x = []"
  by (subst DataLoader.simps) simp

lemma DataLoader_Cons:
  "0 < batch_size \<Longrightarrow> x \<noteq> [] \<Longrightarrow>
   DataLoader batch_size x = take batch_size x # DataLoader batch_size (drop batch_size x)"
  by (subst DataLoader.simps) simp

lemma DataLoader_Nil_iff: "DataLoader batch_size x = [] \<longleftrightarrow> batch_size = 0 \<or> x = []"
  by (subst DataLoader.simps) simp

lemma DataLoader_concat: "0 < batch_size \<Longrightarrow> concat (DataLoader batch_size x) = x"
proof (induction batch_size x rule: DataLoader.induct)
  case (1 batch_size x)
  show ?case
  proof (cases "x = []")
    case True
    then show ?thesis by (simp add: DataLoader_Nil)
  next
    case False
    with "1.prems" "1.IH" show ?thesis by (simp add: DataLoader_Cons)
  qed
qed

lemma DataLoader_batch_size:
  "b \<in> set (DataLoader batch_size x) \<Longrightarrow> 0 < length b \<and> length b \<le> batch_size"
proof (induction batch_size x rule: DataLoader.induct)
  case (1 batch_size x)
  show ?case
  proof (cases "batch_size = 0 \<or> x = []")
    case True
    with "1.prems" show ?thesis by (simp add: DataLoader_Nil)
  next
    case False
    with "1.prems" have "b = take batch_size x \<or> b \<in> set (DataLoader batch_size (drop batch_size x))"
      by (simp add: DataLoader_Cons)
    then show ?thesis
    proof
      assume "b = take batch_size x"
      with False show ?thesis by simp
    next
      assume "b \<in> set (DataLoader batch_size (drop batch_size x))"
      with "1.IH" False show ?thesis by blast
    qed
  qed
qed

lemma DataLoader_full_batches:
  "b \<in> set (butlast (DataLoader batch_size x)) \<Longrightarrow> length b = batch_size"
proof (induction batch_size x rule: DataLoader.induct)
  case (1 batch_size x)
  show ?case
  proof (cases "batch_size = 0 \<or> x = []")
    case True
    with "1.prems" show ?thesis by (simp add: DataLoader_Nil)
  next
    case False
    then have unfold: "DataLoader batch_size x
        = take batch_size x # DataLoader batch_size (drop batch_size x)"
      by (simp add: DataLoader_Cons)
    show ?thesis
    proof (cases "drop batch_size x = []")
      case True
      with unfold have "DataLoader batch_size x = [take batch_size x]"
        by (simp add: DataLoader_Nil)
      with "1.prems" show ?thesis by simp
    next
      case nonempty: False
      with False have rest: "DataLoader batch_size (drop batch_size x) \<noteq> []"
        by (simp add: DataLoader_Nil_iff)
      with unfold "1.prems"
      have "b = take batch_size x \<or> b \<in> set (butlast (DataLoader batch_size (drop batch_size x)))"
        by simp
      then show ?thesis
      proof
        assume "b = take batch_size x"
        with nonempty show ?thesis by simp
      next
        assume "b \<in> set (butlast (DataLoader batch_size (drop batch_size x)))"
        with "1.IH" False show ?thesis by blast
      qed
    qed
  qed
qed

lemma DataLoader_total:
  "0 < batch_size \<Longrightarrow> x \<noteq> [] \<Longrightarrow>
   (length (DataLoader batch_size x) - 1) * batch_size + length (last (DataLoader batch_size x))
     = length x"
proof (induction batch_size x rule: DataLoader.induct)
  case (1 batch_size x)
  then have unfold: "DataLoader batch_size x
      = take batch_size x # DataLoader batch_size (drop batch_size x)"
    by (simp add: DataLoader_Cons)
  show ?case
  proof (cases "drop batch_size x = []")
    case True
    with unfold have "DataLoader batch_size x = [take batch_size x]"
      by (simp add: DataLoader_Nil)
    with True show ?thesis by simp
  next
    case False
    with "1.prems" have rest: "DataLoader batch_size (drop batch_size x) \<noteq> []"
      by (simp add: DataLoader_Nil_iff)
    from False "1.prems" "1.IH"
    have IH: "(length (DataLoader batch_size (drop batch_size x)) - 1) * batch_size
                + length (last (DataLoader batch_size (drop batch_size x)))
              = length (drop batch_size x)"
      by simp
    from rest obtain k where k: "length (DataLoader batch_size (drop batch_size x)) = Suc k"
      by (cases "DataLoader batch_size (drop batch_size x)") auto
    from False have "batch_size \<le> length x" by simp
    with IH rest k unfold show ?thesis by simp
  qed
qed

lemma concat_nth_ragged:
  "xss \<noteq> [] \<Longrightarrow> \<forall>xs\<in>set (butlast xss). length xs = m \<Longrightarrow> length (last xss) \<le> m \<Longrightarrow>
   i < (length xss - 1) * m + length (last xss) \<Longrightarrow>
   concat xss ! i = xss ! (i div m) ! (i mod m)"
proof (induction xss arbitrary: i)
  case Nil
  then show ?case by simp
next
  case (Cons xs xss)
  show ?case
  proof (cases "xss = []")
    case True
    with Cons.prems show ?thesis by simp
  next
    case False
    with Cons.prems have len: "length xs = m" by simp
    show ?thesis
    proof (cases "i < m")
      case True
      with len show ?thesis by (simp add: nth_append)
    next
      case geq: False
      from False Cons.prems have "i - m < (length xss - 1) * m + length (last xss)"
        using geq by (simp add: algebra_simps) 
      with Cons.IH [of "i - m"] False Cons.prems
      have "concat xss ! (i - m) = xss ! ((i - m) div m) ! ((i - m) mod m)"
        by simp
      moreover have "0 < m"
      proof (rule ccontr)
        assume "\<not> 0 < m"
        with Cons.prems show False by simp
      qed
      with geq have "i div m = Suc ((i - m) div m)"
        by (simp add: le_div_geq)
      moreover from geq have "(i - m) mod m = i mod m"
        by (simp add: le_mod_geq)
      ultimately show ?thesis using len geq by (simp add: nth_append)
    qed
  qed
qed

section \<open>Properties of the stored chains\<close>

text \<open>
  The loop of the method \<open>_chain\<close> and the loop of the function \<open>chain\<close> are two
  pieces of source; they compute the same list.
\<close>

lemma WalkbackDataset_chain_loop_eq:
  "WalkbackDataset_chain_loop self k c = chain_loop (self_model self) (self_corrupt self) k c"
  by (induction k arbitrary: c) (simp_all add: Let_def)

lemma WalkbackDataset_chain_eq:
  "WalkbackDataset_chain self b = b # chain b (self_model self) (self_corrupt self) (self_n self - 1)"
  by (simp add: WalkbackDataset_chain_def chain_def Let_def WalkbackDataset_chain_loop_eq
        diff_diff_eq)

lemma init_data:
  "WalkbackDataset_init x model corrupt n batch_size = Inr ds \<Longrightarrow>
   0 < batch_size \<and> self_n ds = 2 + n \<and> self_batch_size ds = batch_size
   \<and> self_model ds = model \<and> self_corrupt ds = corrupt
   \<and> self_data ds = map (\<lambda>b. (b, b # chain b model corrupt (1 + n))) (DataLoader (nat batch_size) x)"
  unfolding WalkbackDataset_init_def Let_def
  by (cases "batch_size \<le> 0") (auto simp add: WalkbackDataset_chain_eq)

text \<open>
  C5: for every batch tensor \<open>b\<close>, step function and corruption function, the
  chain that the dataset's own routine \<open>_chain\<close> produces for \<open>b\<close> is \<open>b\<close> itself
  followed by what the standalone generator \<open>chain\<close> produces from the seed \<open>b\<close>
  at depth \<open>n_total - 1\<close>, where \<open>n_total\<close> is \<open>self.n\<close>. Hence, for a walk-back depth
  that is not negative (\<open>n_total \<ge> 2\<close>), the chain has \<open>n_total\<close> elements, its
  element \<open>0\<close> is the unmodified batch, and its elements \<open>1\<close> to \<open>n_total - 1\<close> are
  the walk-back chain proper. Every record \<open>(y, c)\<close> that the constructor stores
  holds such a chain.
\<close>

theorem stored_chain_prepends_original:
  "WalkbackDataset_chain self b = b # chain b (self_model self) (self_corrupt self) (self_n self - 1)
   \<and> (2 \<le> self_n self \<longrightarrow>
        length (WalkbackDataset_chain self b) = nat (self_n self)
        \<and> WalkbackDataset_chain self b ! 0 = b
        \<and> (\<forall>i. 1 \<le> i \<and> i < nat (self_n self) \<longrightarrow>
              WalkbackDataset_chain self b ! i
                = chain b (self_model self) (self_corrupt self) (self_n self - 1) ! (i - 1)))
   \<and> (WalkbackDataset_init x model corrupt n batch_size = Inr ds \<and> (y, c) \<in> set (self_data ds) \<longrightarrow>
         c = y # chain y model corrupt (self_n ds - 1))"
proof (intro conjI impI allI)
  show eq: "WalkbackDataset_chain self b
              = b # chain b (self_model self) (self_corrupt self) (self_n self - 1)"
    by (rule WalkbackDataset_chain_eq)
  assume n: "2 \<le> self_n self"
  have "length (chain b (self_model self) (self_corrupt self) (self_n self - 1))
          = nat (self_n self - 1)"
    using n by (simp add: chain_def Let_def length_chain_loop)
  with n show "length (WalkbackDataset_chain self b) = nat (self_n self)"
    by (simp add: eq)
  show "WalkbackDataset_chain self b ! 0 = b"
    by (simp add: eq)
  fix i
  assume "1 \<le> i \<and> i < nat (self_n self)"
  then obtain j where "i = Suc j" by (cases i) auto
  then show "WalkbackDataset_chain self b ! i
       = chain b (self_model self) (self_corrupt self) (self_n self - 1) ! (i - 1)"
    by (simp add: eq)
next
  assume a: "WalkbackDataset_init x model corrupt n batch_size = Inr ds \<and> (y, c) \<in> set (self_data ds)"
  from init_data [of x model corrupt n batch_size ds] a
  show "c = y # chain y model corrupt (self_n ds - 1)"
    by auto
qed

text \<open>
  A dataset of three samples in batches of two with walk-back depth \<open>1\<close>, list
  reversal as step function and pointwise negation as corruption function.
\<close>

theorem stored_chain_prepends_original_witness:
  "WalkbackDataset_chain \<lparr> self_model = rev, self_corrupt = map uminus, self_n = 3,
       self_batch_size = 2, self_data = [] \<rparr> [1::int, 2] = [[1, 2], [-1, -2], [2, 1]]
   \<and> length (WalkbackDataset_chain \<lparr> self_model = rev, self_corrupt = map uminus, self_n = 3,
       self_batch_size = 2, self_data = [] \<rparr> [1::int, 2]) = 3
   \<and> WalkbackDataset_chain \<lparr> self_model = rev, self_corrupt = map uminus, self_n = 3,
       self_batch_size = 2, self_data = [] \<rparr> [1::int, 2] ! 2
      = chain [1::int, 2] rev (map uminus) 2 ! 1
   \<and> WalkbackDataset_init [1::int, 2, 3] rev (map uminus) 1 2
      = Inr \<lparr> self_model = rev, self_corrupt = map uminus, self_n = 3, self_batch_size = 2,
              self_data = [([1, 2], [[1, 2], [-1, -2], [2, 1]]), ([3], [[3], [-3], [3]])] \<rparr>
   \<and> [[3], [-3], [3]] = [3] # chain [3::int] rev (map uminus) 2"
proof -
  let ?self = "\<lparr> self_model = rev, self_corrupt = map uminus, self_n = 3,
       self_batch_size = 2, self_data = [] \<rparr> :: int WalkbackDataset"
  let ?ds = "\<lparr> self_model = rev, self_corrupt = map uminus, self_n = 3, self_batch_size = 2,
              self_data = [([1::int, 2], [[1, 2], [-1, -2], [2, 1]]), ([3], [[3], [-3], [3]])] \<rparr>"
  have ch: "chain [1::int, 2] rev (map uminus) 2 = [[-1, -2], [2, 1]]"
    by (simp add: chain_def Let_def)
  have dl: "DataLoader 2 [1::int, 2, 3] = [[1, 2], [3]]"
    by (simp add: DataLoader_Cons DataLoader_Nil)
  have init: "WalkbackDataset_init [1::int, 2, 3] rev (map uminus) 1 2 = Inr ?ds"
    by (simp add: WalkbackDataset_init_def Let_def dl WalkbackDataset_chain_def)
  note t = stored_chain_prepends_original [of ?self "[1::int, 2]" "[1::int, 2, 3]" rev "map uminus" 1 2
      ?ds "[3]" "[[3], [-3], [3]]"]
  from t ch init show ?thesis by simp
qed

section \<open>Properties of the length\<close>

lemma list_getitem_last: "xs \<noteq> [] \<Longrightarrow> list_getitem xs (- 1) = Inr (last xs)"
  by (cases xs rule: rev_cases) (simp_all add: list_getitem_def Let_def)

lemma list_getitem_nat: "k < length xs \<Longrightarrow> list_getitem xs (int k) = Inr (xs ! k)"
  by (simp add: list_getitem_def Let_def)

lemma list_getitem_out_of_range: "int (length xs) \<le> i \<Longrightarrow> list_getitem xs i = Inl IndexError"
  by (simp add: list_getitem_def Let_def)

text \<open>
  C3: for every dataset built from a non-empty base collection \<open>x\<close>, which the
  loader cuts in order into batches of \<open>batch_size\<close> with a possibly smaller last
  batch, \<open>__len__\<close> returns
  \<open>(num_batches - 1) * batch_size * n_total + n_total * size_of_last_batch\<close>
  with \<open>n_total = n + 2\<close>, where the batches stored are those of the loader. This
  number is \<open>n_total\<close> times the number of samples, and it is what \<open>len(dataset)\<close>
  returns whenever \<open>n_total\<close> is not negative. For a base collection of exactly
  \<open>batch_size\<close> samples it is \<open>batch_size * n_total\<close>.
\<close>

theorem len_closed_form:
  "WalkbackDataset_init x model corrupt n batch_size = Inr ds \<and> x \<noteq> [] \<longrightarrow>
     WalkbackDataset_len ds
       = Inr ((int (length (DataLoader (nat batch_size) x)) - 1) * batch_size * (n + 2)
              + (n + 2) * int (length (last (DataLoader (nat batch_size) x))))
     \<and> length (self_data ds) = length (DataLoader (nat batch_size) x)
     \<and> fst (last (self_data ds)) = last (DataLoader (nat batch_size) x)
     \<and> WalkbackDataset_len ds = Inr ((n + 2) * int (length x))
     \<and> (0 \<le> n + 2 \<longrightarrow> len ds = WalkbackDataset_len ds)
     \<and> (int (length x) = batch_size \<longrightarrow> WalkbackDataset_len ds = Inr (batch_size * (n + 2)))"
proof (intro impI)
  assume a: "WalkbackDataset_init x model corrupt n batch_size = Inr ds \<and> x \<noteq> []"
  let ?bs = "DataLoader (nat batch_size) x"
  note d = init_data [of x model corrupt n batch_size ds]
  from a d have pos: "0 < nat batch_size" by simp
  with a have ne: "?bs \<noteq> []" by (simp add: DataLoader_Nil_iff)
  from a d have data: "self_data ds = map (\<lambda>b. (b, b # chain b model corrupt (1 + n))) ?bs"
    by simp
  with ne have data_ne: "self_data ds \<noteq> []" by simp
  from data ne have last: "fst (last (self_data ds)) = last ?bs"
    by (simp add: last_map)
  from data have length: "length (self_data ds) = length ?bs" by simp
  from a d have fields: "self_n ds = n + 2" "self_batch_size ds = batch_size" by simp_all
  have len: "WalkbackDataset_len ds
       = Inr ((int (length ?bs) - 1) * batch_size * (n + 2) + (n + 2) * int (length (last ?bs)))"
    by (simp add: WalkbackDataset_len_def list_getitem_last [OF data_ne] last length fields)
  from a have "x \<noteq> []" by simp
  from DataLoader_total [OF pos this]
  have total: "(length ?bs - 1) * nat batch_size + length (last ?bs) = length x" .
  from ne have "int (length ?bs) - 1 = int (length ?bs - 1)"
    by (cases ?bs) simp_all
  moreover from pos have "batch_size = int (nat batch_size)" by simp
  ultimately have "(int (length ?bs) - 1) * batch_size + int (length (last ?bs)) = int (length x)"
    using total by (metis of_nat_add of_nat_mult)
  then have "(n + 2) * ((int (length ?bs) - 1) * batch_size + int (length (last ?bs)))
      = (n + 2) * int (length x)"
    by simp
  then have val: "(int (length ?bs) - 1) * batch_size * (n + 2) + (n + 2) * int (length (last ?bs))
      = (n + 2) * int (length x)"
    by (simp only: distrib_left mult.commute mult.assoc)
  have nonneg: "0 \<le> n + 2 \<longrightarrow> len ds = WalkbackDataset_len ds"
  proof
    assume "0 \<le> n + 2"
    then have "0 \<le> (n + 2) * int (length x)" by simp
    then show "len ds = WalkbackDataset_len ds"
      by (simp add: len_def len val)
  qed
  have exact: "int (length x) = batch_size \<longrightarrow> WalkbackDataset_len ds = Inr (batch_size * (n + 2))"
    using len val by (simp add: mult.commute)
  from len length last val nonneg exact
  show "WalkbackDataset_len ds
       = Inr ((int (length (DataLoader (nat batch_size) x)) - 1) * batch_size * (n + 2)
              + (n + 2) * int (length (last (DataLoader (nat batch_size) x))))
     \<and> length (self_data ds) = length (DataLoader (nat batch_size) x)
     \<and> fst (last (self_data ds)) = last (DataLoader (nat batch_size) x)
     \<and> WalkbackDataset_len ds = Inr ((n + 2) * int (length x))
     \<and> (0 \<le> n + 2 \<longrightarrow> len ds = WalkbackDataset_len ds)
     \<and> (int (length x) = batch_size \<longrightarrow> WalkbackDataset_len ds = Inr (batch_size * (n + 2)))"
    by simp
qed

text \<open>
  The scenario of five samples in batches of two with walk-back depth \<open>1\<close>:
  three batches of sizes two, two and one, and a length of \<open>15\<close>. Two samples in
  one batch of two give \<open>2 * 3\<close>.
\<close>

theorem len_closed_form_witness:
  "(case WalkbackDataset_init [1::int, 2, 3, 4, 5] rev (map uminus) 1 2 of
      Inl e \<Rightarrow> Inl e | Inr ds \<Rightarrow> len ds) = Inr ((3 - 1) * 2 * 3 + 3 * 1)
   \<and> (case WalkbackDataset_init [1::int, 2, 3, 4, 5] rev (map uminus) 1 2 of
      Inl e \<Rightarrow> Inl e | Inr ds \<Rightarrow> len ds) = Inr 15
   \<and> (case WalkbackDataset_init [1::int, 2] rev (map uminus) 1 2 of
      Inl e \<Rightarrow> Inl e | Inr ds \<Rightarrow> WalkbackDataset_len ds) = Inr (2 * 3)"
proof -
  let ?x = "[1::int, 2, 3, 4, 5]"
  have dl: "DataLoader 2 ?x = [[1, 2], [3, 4], [5]]"
    by (simp add: DataLoader_Cons DataLoader_Nil)
  have "\<exists>ds. WalkbackDataset_init ?x rev (map uminus) 1 2 = Inr ds"
    by (simp add: WalkbackDataset_init_def Let_def)
  then obtain ds where ds: "WalkbackDataset_init ?x rev (map uminus) 1 2 = Inr ds" ..
  from len_closed_form [of ?x rev "map uminus" 1 2 ds] ds dl
  have five: "len ds = Inr 15" by simp
  let ?y = "[1::int, 2]"
  have "\<exists>ds. WalkbackDataset_init ?y rev (map uminus) 1 2 = Inr ds"
    by (simp add: WalkbackDataset_init_def Let_def)
  then obtain ds' where ds': "WalkbackDataset_init ?y rev (map uminus) 1 2 = Inr ds'" ..
  have dl': "DataLoader 2 ?y = [[1, 2]]"
    by (simp add: DataLoader_Cons DataLoader_Nil)
  from len_closed_form [of ?y rev "map uminus" 1 2 ds'] ds' dl'
  have two: "WalkbackDataset_len ds' = Inr 6" by simp
  from five two ds ds' show ?thesis by simp
qed

section \<open>Properties of the element access\<close>

subsection \<open>The enumeration\<close>

lemma length_concat_ragged:
  "xss \<noteq> [] \<Longrightarrow> \<forall>xs\<in>set (butlast xss). length xs = m \<Longrightarrow>
   length (concat xss) = (length xss - 1) * m + length (last xss)"
proof (induction xss)
  case Nil
  then show ?case by simp
next
  case (Cons xs xss)
  show ?case
  proof (cases "xss = []")
    case True
    then show ?thesis by simp
  next
    case False
    then obtain k where k: "length xss = Suc k" by (cases xss) auto
    from False Cons.prems have "length xs = m" by simp
    moreover from False Cons.prems Cons.IH
    have "length (concat xss) = (length xss - 1) * m + length (last xss)" by simp
    ultimately show ?thesis using False k by simp
  qed
qed

lemma length_enumerate_record:
  "length (enumerate_record r) = length (snd r) * length (fst r)"
proof -
  obtain y x where r: "r = (y, x)" by (cases r)
  have "length (concat (map (\<lambda>c. map (\<lambda>e. (c ! e, y ! e)) [0..<length y]) x))
          = length x * length y"
    by (induction x) simp_all
  with r show ?thesis by (simp add: enumerate_record_def)
qed

lemma nth_enumerate_record:
  assumes "k < length (snd r) * length (fst r)"
  shows "enumerate_record r ! k
           = (snd r ! (k div length (fst r)) ! (k mod length (fst r)),
              fst r ! (k mod length (fst r)))"
proof -
  obtain y x where r: "r = (y, x)" by (cases r)
  let ?l = "length y"
  let ?xss = "map (\<lambda>c. map (\<lambda>e. (c ! e, y ! e)) [0..<?l]) x"
  from assms r have k: "k < length x * ?l" by simp
  then have l: "0 < ?l" and x: "x \<noteq> []" by (cases ?l; auto)+
  from k l have c: "k div ?l < length x"
    by (simp add: less_mult_imp_div_less)
  from l have e: "k mod ?l < ?l" by simp
  have "\<forall>xs\<in>set ?xss. length xs = ?l" by auto
  then have uniform: "\<forall>xs\<in>set (butlast ?xss). length xs = ?l"
    by (meson in_set_butlastD)
  from x have last_le: "length (last ?xss) \<le> ?l" by (simp add: last_map)
  have bound: "k < (length ?xss - 1) * ?l + length (last ?xss)"
  proof -
    from x obtain n where "length x = Suc n" by (cases x) auto
    with x k show ?thesis by (simp add: last_map)
  qed
  from x have ne: "?xss \<noteq> []" by simp
  have "concat ?xss ! k = ?xss ! (k div ?l) ! (k mod ?l)"
    by (rule concat_nth_ragged [OF ne uniform last_le bound])
  also from c e have "\<dots> = (x ! (k div ?l) ! (k mod ?l), y ! (k mod ?l))" by simp
  finally show ?thesis using r by (simp add: enumerate_record_def)
qed

subsection \<open>The index arithmetic\<close>

text \<open>
  A dataset whose records but the last hold \<open>bs\<close> samples, whose last record
  holds between one and \<open>bs\<close>, and whose chains have \<open>n\<close> tensors of the size of
  their batch each: every index below the length is decomposed into a batch, a
  chain position and an element that exist, and the access returns them.
\<close>

lemma getitem_in_range:
  assumes bs: "0 < bs" "self_batch_size self = int bs"
    and n: "0 < n" "self_n self = int n"
    and ne: "self_data self \<noteq> []"
    and full: "\<forall>r\<in>set (butlast (self_data self)). length (fst r) = bs"
    and lastb: "0 < length (fst (last (self_data self)))"
               "length (fst (last (self_data self))) \<le> bs"
    and chains: "\<forall>r\<in>set (self_data self).
                   length (snd r) = n \<and> (\<forall>t\<in>set (snd r). length t = length (fst r))"
    and j: "j < (length (self_data self) - 1) * (bs * n)
                  + n * length (fst (last (self_data self)))"
  shows "j div (bs * n) < length (self_data self)
         \<and> (j mod (bs * n)) div length (fst (self_data self ! (j div (bs * n)))) < n
         \<and> 0 < length (fst (self_data self ! (j div (bs * n))))
         \<and> j mod (bs * n) < n * length (fst (self_data self ! (j div (bs * n))))
         \<and> WalkbackDataset_getitem self (int j)
             = Inr (snd (self_data self ! (j div (bs * n)))
                      ! ((j mod (bs * n)) div length (fst (self_data self ! (j div (bs * n)))))
                      ! ((j mod (bs * n)) mod length (fst (self_data self ! (j div (bs * n))))),
                    fst (self_data self ! (j div (bs * n)))
                      ! ((j mod (bs * n)) mod length (fst (self_data self ! (j div (bs * n))))))"
proof -
  let ?data = "self_data self"
  let ?m = "bs * n"
  let ?K = "length ?data"
  let ?b = "j div ?m"
  let ?k = "j mod ?m"
  let ?r = "?data ! ?b"
  let ?l = "length (fst ?r)"
  from bs n have m: "0 < ?m" by simp
  from ne obtain K' where K: "?K = Suc K'" by (cases ?data) auto
  from j K have "j < K' * ?m + n * length (fst (last ?data))" by simp
  also from lastb have "\<dots> \<le> K' * ?m + n * bs" by simp
  also from K have "\<dots> = ?K * ?m" by (simp add: mult.commute)
  finally have "j < ?K * ?m" .
  with m have b: "?b < ?K" by (simp add: less_mult_imp_div_less)
  have l_and_k: "0 < ?l \<and> ?l \<le> bs \<and> ?k < n * ?l"
  proof (cases "?b < K'")
    case True
    with K have "?r = butlast ?data ! ?b" by (simp add: nth_butlast)
    moreover from True K have "?b < length (butlast ?data)" by simp
    ultimately have "?r \<in> set (butlast ?data)" by (metis nth_mem)
    with full have "?l = bs" by simp
    moreover from m have "?k < ?m" by simp
    ultimately show ?thesis using bs by (simp add: mult.commute)
  next
    case False
    with b K have eq: "?b = K'" by simp
    with K ne have r: "?r = last ?data" by (simp add: last_conv_nth)
    have "j = ?b * ?m + ?k" by (rule div_mult_mod_eq [symmetric])
    with eq have "j = K' * ?m + ?k" by simp
    with j K have "?k < n * length (fst (last ?data))" by simp
    with r lastb show ?thesis by simp
  qed
  then have l: "0 < ?l" and k: "?k < n * ?l" by simp_all
  from k l have c: "?k div ?l < n" by (simp add: less_mult_imp_div_less mult.commute)
  from l have e: "?k mod ?l < ?l" by simp
  from b have mem: "?r \<in> set ?data" by simp
  with chains have len_chain: "length (snd ?r) = n" by simp
  with c have "snd ?r ! (?k div ?l) \<in> set (snd ?r)" by simp
  with chains mem have len_c: "length (snd ?r ! (?k div ?l)) = ?l" by blast
  have rc: "range_check self (int j) = Inr False" by (simp add: range_check_def)
  have stride: "self_batch_size self * self_n self = int ?m" using bs n by simp
  have bi: "int j div int ?m = int ?b" by (simp add: zdiv_int)
  have ki: "int j mod int ?m = int ?k" by (simp add: zmod_int)
  have ci: "int ?k div int ?l = int (?k div ?l)" by (simp add: zdiv_int)
  have ei: "int ?k mod int ?l = int (?k mod ?l)" by (simp add: zmod_int)
  have g1: "list_getitem ?data (int ?b) = Inr (fst ?r, snd ?r)"
    using b by (simp add: list_getitem_nat)
  have g2: "list_getitem (snd ?r) (int (?k div ?l)) = Inr (snd ?r ! (?k div ?l))"
    using c len_chain by (simp add: list_getitem_nat)
  have g3: "list_getitem (snd ?r ! (?k div ?l)) (int (?k mod ?l))
              = Inr (snd ?r ! (?k div ?l) ! (?k mod ?l))"
    using e len_c by (simp add: list_getitem_nat)
  have g4: "list_getitem (fst ?r) (int (?k mod ?l)) = Inr (fst ?r ! (?k mod ?l))"
    using e by (simp add: list_getitem_nat)
  have "WalkbackDataset_getitem self (int j)
          = Inr (snd ?r ! (?k div ?l) ! (?k mod ?l), fst ?r ! (?k mod ?l))"
    unfolding WalkbackDataset_getitem_def rc stride Let_def bi ki
    using m l by (simp add: g1 case_prod_beta ci ei g2 g3 g4)
  with b c l k show ?thesis by simp
qed

text \<open>
  In such a dataset the enumeration has the length of the closed form, and its
  \<open>j\<close>-th pair lies in the record and at the offset that the stride gives.
\<close>

lemma enumerate_dataset_nth:
  assumes bs: "0 < bs"
    and n: "0 < n"
    and ne: "self_data self \<noteq> []"
    and full: "\<forall>r\<in>set (butlast (self_data self)). length (fst r) = bs"
    and lastb: "length (fst (last (self_data self))) \<le> bs"
    and chains: "\<forall>r\<in>set (self_data self). length (snd r) = n"
  shows "length (enumerate_dataset self)
           = (length (self_data self) - 1) * (bs * n) + n * length (fst (last (self_data self)))"
    and "j < (length (self_data self) - 1) * (bs * n) + n * length (fst (last (self_data self)))
         \<Longrightarrow> enumerate_dataset self ! j
               = enumerate_record (self_data self ! (j div (bs * n))) ! (j mod (bs * n))"
proof -
  let ?data = "self_data self"
  let ?xss = "map enumerate_record ?data"
  from ne have xss: "?xss \<noteq> []" by simp
  have uniform: "\<forall>xs\<in>set (butlast ?xss). length xs = bs * n"
  proof
    fix xs
    assume "xs \<in> set (butlast ?xss)"
    then have "xs \<in> enumerate_record ` set (butlast ?data)" by (simp add: map_butlast [symmetric])
    then obtain r where r: "r \<in> set (butlast ?data)" and xs: "xs = enumerate_record r" by blast
    from r have "r \<in> set ?data" by (rule in_set_butlastD)
    with chains have "length (snd r) = n" by simp
    moreover from r full have "length (fst r) = bs" by simp
    ultimately show "length xs = bs * n"
      using xs by (simp add: length_enumerate_record mult.commute)
  qed
  from ne have "last ?data \<in> set ?data" by simp
  with chains have "length (snd (last ?data)) = n" by simp
  with ne have last_len: "length (last ?xss) = n * length (fst (last ?data))"
    by (simp add: last_map length_enumerate_record)
  with lastb have last_le: "length (last ?xss) \<le> bs * n" by (simp add: mult.commute)
  from length_concat_ragged [OF xss uniform] last_len
  show "length (enumerate_dataset self)
           = (length ?data - 1) * (bs * n) + n * length (fst (last ?data))"
    by (simp add: enumerate_dataset_def)
  assume j: "j < (length ?data - 1) * (bs * n) + n * length (fst (last ?data))"
  with last_len have bound: "j < (length ?xss - 1) * (bs * n) + length (last ?xss)" by simp
  from bs n have m: "0 < bs * n" by simp
  from ne obtain K' where K: "length ?data = Suc K'" by (cases ?data) auto
  from j K have "j < K' * (bs * n) + n * length (fst (last ?data))" by simp
  also from lastb have "\<dots> \<le> K' * (bs * n) + n * bs" by simp
  also from K have "\<dots> = length ?data * (bs * n)" by (simp add: mult.commute)
  finally have "j < length ?data * (bs * n)" .
  with m have b: "j div (bs * n) < length ?data" by (simp add: less_mult_imp_div_less)
  from concat_nth_ragged [OF xss uniform last_le bound] b
  show "enumerate_dataset self ! j = enumerate_record (?data ! (j div (bs * n))) ! (j mod (bs * n))"
    by (simp add: enumerate_dataset_def)
qed

subsection \<open>The datasets that the constructor builds\<close>

lemma length_chain: "length (chain x model corrupt n) = nat (max 1 n)"
  by (auto simp add: chain_def Let_def length_chain_loop max_def)

lemma chain_shape:
  assumes "\<And>t. shape_of (corrupt t) = shape_of t" and "\<And>t. shape_of (model t) = shape_of t"
    and "c \<in> set (chain x model corrupt n)"
  shows "shape_of c = shape_of x"
proof -
  from assms(3)
  have "c = corrupt x \<or> c \<in> set (chain_loop model corrupt (nat (n - 1)) (corrupt x))"
    by (simp add: chain_def Let_def)
  then show ?thesis
  proof
    assume "c = corrupt x"
    with assms(1) show ?thesis by simp
  next
    assume "c \<in> set (chain_loop model corrupt (nat (n - 1)) (corrupt x))"
    from chain_loop_shape [of shape_of corrupt model, OF assms(1) assms(2) this] assms(1)
    show ?thesis by simp
  qed
qed

lemma init_well_formed:
  assumes init: "WalkbackDataset_init x model corrupt n batch_size = Inr ds"
    and x: "x \<noteq> []"
    and model: "\<And>t. length (model t) = length t"
    and corrupt: "\<And>t. length (corrupt t) = length t"
    and n: "0 \<le> n"
  shows "0 < nat batch_size" "self_batch_size ds = int (nat batch_size)"
    "0 < nat (n + 2)" "self_n ds = int (nat (n + 2))"
    "self_data ds \<noteq> []"
    "\<forall>r\<in>set (butlast (self_data ds)). length (fst r) = nat batch_size"
    "0 < length (fst (last (self_data ds)))"
    "length (fst (last (self_data ds))) \<le> nat batch_size"
    "\<forall>r\<in>set (self_data ds).
        length (snd r) = nat (n + 2) \<and> (\<forall>t\<in>set (snd r). length t = length (fst r))"
proof -
  let ?bs = "DataLoader (nat batch_size) x"
  let ?f = "\<lambda>b. (b, b # chain b model corrupt (1 + n))"
  note d = init_data [OF init]
  from d show pos: "0 < nat batch_size" by simp
  from d show "self_batch_size ds = int (nat batch_size)" by simp
  from n show "0 < nat (n + 2)" by simp
  from d n show "self_n ds = int (nat (n + 2))" by simp
  from d have data: "self_data ds = map ?f ?bs" by simp
  from pos x have ne: "?bs \<noteq> []" by (simp add: DataLoader_Nil_iff)
  with data show "self_data ds \<noteq> []" by simp
  show "\<forall>r\<in>set (butlast (self_data ds)). length (fst r) = nat batch_size"
  proof
    fix r
    assume "r \<in> set (butlast (self_data ds))"
    with data have "r \<in> ?f ` set (butlast ?bs)" by (simp add: map_butlast [symmetric])
    then obtain b where "b \<in> set (butlast ?bs)" and "r = ?f b" by blast
    then show "length (fst r) = nat batch_size" by (simp add: DataLoader_full_batches)
  qed
  from ne have "last ?bs \<in> set ?bs" by simp
  from DataLoader_batch_size [OF this] data ne
  show "0 < length (fst (last (self_data ds)))"
    and "length (fst (last (self_data ds))) \<le> nat batch_size"
    by (simp_all add: last_map)
  show "\<forall>r\<in>set (self_data ds).
        length (snd r) = nat (n + 2) \<and> (\<forall>t\<in>set (snd r). length t = length (fst r))"
  proof
    fix r
    assume "r \<in> set (self_data ds)"
    with data obtain b where r: "r = ?f b" by auto
    have "length (snd r) = nat (n + 2)"
      using n by (simp add: r length_chain max_def nat_add_distrib)
    moreover have "\<forall>t\<in>set (snd r). length t = length (fst r)"
    proof
      fix t
      assume "t \<in> set (snd r)"
      with r have "t = b \<or> t \<in> set (chain b model corrupt (1 + n))" by simp
      then show "length t = length (fst r)"
      proof
        assume "t = b"
        with r show ?thesis by simp
      next
        assume "t \<in> set (chain b model corrupt (1 + n))"
        from chain_shape [of length corrupt model, OF corrupt model this] r
        show ?thesis by simp
      qed
    qed
    ultimately show "length (snd r) = nat (n + 2) \<and> (\<forall>t\<in>set (snd r). length t = length (fst r))"
      by simp
  qed
qed

lemma len_Inr_nonempty:
  assumes "WalkbackDataset_init x model corrupt n batch_size = Inr ds" and "len ds = Inr L"
  shows "x \<noteq> []"
proof
  assume "x = []"
  with init_data [OF assms(1)] have "self_data ds = []" by (simp add: DataLoader_Nil)
  then have "len ds = Inl IndexError"
    by (simp add: len_def WalkbackDataset_len_def list_getitem_def)
  with assms(2) show False by simp
qed

text \<open>
  C1: for every dataset \<open>ds\<close> that the constructor builds with a step function
  and a corruption function that keep the number of rows of a batch, and with
  a walk-back depth that is not negative, and for every index \<open>i\<close> with
  \<open>0 \<le> i < len(ds)\<close>: the six steps of the decomposition name a batch record, a
  chain position and a batch element that exist (\<open>b_index\<close> by the stride
  \<open>batch_size * n_total\<close>, \<open>c_index\<close> and \<open>e_index\<close> by the stored size of that
  batch), and \<open>get(i)\<close> returns the pair \<open>(chain[c_index][e_index],
  original_batch[e_index])\<close>. The length is the number of pairs of the
  enumeration in order over batches, chain positions and batch elements, and
  \<open>get(i)\<close> is its \<open>i\<close>-th pair.
\<close>

theorem getitem_matches_enumeration:
  "WalkbackDataset_init x model corrupt n batch_size = Inr ds
   \<and> (\<forall>t. length (model t) = length t) \<and> (\<forall>t. length (corrupt t) = length t)
   \<and> 0 \<le> n \<and> len ds = Inr L \<and> 0 \<le> i \<and> i < L \<longrightarrow>
     (let b_index = i div (batch_size * (n + 2));
          i_rem = i mod (batch_size * (n + 2));
          y = fst (self_data ds ! nat b_index);
          c = snd (self_data ds ! nat b_index);
          actual_batch_size = int (length y);
          c_index = i_rem div actual_batch_size;
          e_index = i_rem mod actual_batch_size
      in 0 \<le> b_index \<and> nat b_index < length (self_data ds)
         \<and> 0 \<le> c_index \<and> nat c_index < length c
         \<and> 0 \<le> e_index \<and> nat e_index < length y
         \<and> WalkbackDataset_getitem ds i = Inr (c ! nat c_index ! nat e_index, y ! nat e_index))
     \<and> L = int (length (enumerate_dataset ds))
     \<and> WalkbackDataset_getitem ds i = Inr (enumerate_dataset ds ! nat i)"
proof (intro impI)
  assume a: "WalkbackDataset_init x model corrupt n batch_size = Inr ds
   \<and> (\<forall>t. length (model t) = length t) \<and> (\<forall>t. length (corrupt t) = length t)
   \<and> 0 \<le> n \<and> len ds = Inr L \<and> 0 \<le> i \<and> i < L"
  then have init: "WalkbackDataset_init x model corrupt n batch_size = Inr ds"
    and model: "\<And>t. length (model t) = length t"
    and corrupt: "\<And>t. length (corrupt t) = length t"
    and n: "0 \<le> n" and L: "len ds = Inr L" and i: "0 \<le> i" "i < L"
    by simp_all
  let ?bs = "nat batch_size"
  let ?n = "nat (n + 2)"
  let ?data = "self_data ds"
  let ?j = "nat i"
  let ?b = "?j div (?bs * ?n)"
  let ?k = "?j mod (?bs * ?n)"
  let ?l = "length (fst (?data ! ?b))"
  from len_Inr_nonempty [OF init L] have x: "x \<noteq> []" .
  note wf = init_well_formed [OF init x model corrupt n]
  note bs = wf(1,2) and ns = wf(3,4) and ne = wf(5) and full = wf(6) and lastb = wf(7,8)
    and chains = wf(9)
  from chains have chain_len: "\<forall>r\<in>set ?data. length (snd r) = ?n" by simp
  let ?len = "(length ?data - 1) * (?bs * ?n) + ?n * length (fst (last ?data))"
  from ne obtain K' where K: "length ?data = Suc K'" by (cases ?data) auto
  from ne have "WalkbackDataset_len ds
      = Inr ((int (length ?data) - 1) * self_batch_size ds * self_n ds
             + self_n ds * int (length (fst (last ?data))))"
    by (simp add: WalkbackDataset_len_def list_getitem_last)
  also have "(int (length ?data) - 1) * self_batch_size ds * self_n ds
             + self_n ds * int (length (fst (last ?data))) = int ?len"
    unfolding bs(2) ns(2) K by (simp add: mult.assoc)
  finally have len_val: "WalkbackDataset_len ds = Inr (int ?len)" .
  define N where "N = ?len"
  with len_val have "WalkbackDataset_len ds = Inr (int N)" by simp
  with L have LN: "L = int N" by (simp add: len_def)
  then have L_eq: "L = int ?len" by (simp only: N_def)
  from i LN have "?j < N" by simp
  then have j: "?j < ?len" by (simp only: N_def)
  from i have ij: "int ?j = i" by simp
  note g = getitem_in_range [OF bs ns ne full lastb chains j]
  note e = enumerate_dataset_nth [OF bs(1) ns(1) ne full lastb(2) chain_len]
  from g have b: "?b < length ?data" and c: "?k div ?l < ?n" and l: "0 < ?l"
    and k: "?k < ?n * ?l"
    and get: "WalkbackDataset_getitem ds (int ?j)
        = Inr (snd (?data ! ?b) ! (?k div ?l) ! (?k mod ?l), fst (?data ! ?b) ! (?k mod ?l))"
    by simp_all
  from b have "?data ! ?b \<in> set ?data" by simp
  with chain_len have cl: "length (snd (?data ! ?b)) = ?n" by simp
  from k cl have "?k < length (snd (?data ! ?b)) * length (fst (?data ! ?b))"
    by (simp only:)
  from e(2) [OF j] nth_enumerate_record [OF this]
  have enum: "enumerate_dataset ds ! ?j
        = (snd (?data ! ?b) ! (?k div ?l) ! (?k mod ?l), fst (?data ! ?b) ! (?k mod ?l))"
    by (simp only:)
  have stride: "batch_size * (n + 2) = int (?bs * ?n)" using bs(1) n by simp
  have "int ?j div int (?bs * ?n) = int ?b" by (rule zdiv_int [symmetric])
  then have bi: "i div (batch_size * (n + 2)) = int ?b"
    by (simp only: stride ij)
  have "int ?j mod int (?bs * ?n) = int ?k" by (rule zmod_int [symmetric])
  then have ki: "i mod (batch_size * (n + 2)) = int ?k"
    by (simp only: stride ij)
  have ci: "int ?k div int ?l = int (?k div ?l)" by (simp add: zdiv_int)
  have ei: "int ?k mod int ?l = int (?k mod ?l)" by (simp add: zmod_int)
  from l have el: "?k mod ?l < ?l" by simp
  have first: "(let b_index = i div (batch_size * (n + 2));
          i_rem = i mod (batch_size * (n + 2));
          y = fst (self_data ds ! nat b_index);
          c = snd (self_data ds ! nat b_index);
          actual_batch_size = int (length y);
          c_index = i_rem div actual_batch_size;
          e_index = i_rem mod actual_batch_size
      in 0 \<le> b_index \<and> nat b_index < length (self_data ds)
         \<and> 0 \<le> c_index \<and> nat c_index < length c
         \<and> 0 \<le> e_index \<and> nat e_index < length y
         \<and> WalkbackDataset_getitem ds i = Inr (c ! nat c_index ! nat e_index, y ! nat e_index))"
    unfolding Let_def bi ki nat_int ci ei
    using b c cl el get by (simp only: ij of_nat_0_le_iff simp_thms)
  from e(1) L_eq have second: "L = int (length (enumerate_dataset ds))" by simp
  from get enum ij have third: "WalkbackDataset_getitem ds i = Inr (enumerate_dataset ds ! nat i)"
    by simp
  from first second third show "(let b_index = i div (batch_size * (n + 2));
          i_rem = i mod (batch_size * (n + 2));
          y = fst (self_data ds ! nat b_index);
          c = snd (self_data ds ! nat b_index);
          actual_batch_size = int (length y);
          c_index = i_rem div actual_batch_size;
          e_index = i_rem mod actual_batch_size
      in 0 \<le> b_index \<and> nat b_index < length (self_data ds)
         \<and> 0 \<le> c_index \<and> nat c_index < length c
         \<and> 0 \<le> e_index \<and> nat e_index < length y
         \<and> WalkbackDataset_getitem ds i = Inr (c ! nat c_index ! nat e_index, y ! nat e_index))
     \<and> L = int (length (enumerate_dataset ds))
     \<and> WalkbackDataset_getitem ds i = Inr (enumerate_dataset ds ! nat i)"
    by (intro conjI)
qed

text \<open>
  Index \<open>13\<close> of the dataset of five samples in batches of two with walk-back
  depth \<open>1\<close>: it lies in the last, smaller batch, at chain position \<open>1\<close>.
\<close>

theorem getitem_matches_enumeration_witness:
  "(case WalkbackDataset_init [1::int, 2, 3, 4, 5] rev (map uminus) 1 2 of
      Inl e \<Rightarrow> Inl e
    | Inr ds \<Rightarrow> WalkbackDataset_getitem ds 13) = Inr (- 5, 5)
   \<and> (case WalkbackDataset_init [1::int, 2, 3, 4, 5] rev (map uminus) 1 2 of
      Inl e \<Rightarrow> Inl e
    | Inr ds \<Rightarrow> Inr (enumerate_dataset ds ! 13)) = Inr (- 5, 5)"
proof -
  let ?x = "[1::int, 2, 3, 4, 5]"
  let ?ds = "\<lparr> self_model = rev, self_corrupt = map uminus, self_n = 3, self_batch_size = 2,
      self_data = [([1::int, 2], [[1, 2], [- 1, - 2], [2, 1]]),
                   ([3, 4], [[3, 4], [- 3, - 4], [4, 3]]),
                   ([5], [[5], [- 5], [5]])] \<rparr>"
  have dl: "DataLoader 2 ?x = [[1, 2], [3, 4], [5]]"
    by (simp add: DataLoader_Cons DataLoader_Nil)
  have init: "WalkbackDataset_init ?x rev (map uminus) 1 2 = Inr ?ds"
    by (simp add: WalkbackDataset_init_def Let_def dl WalkbackDataset_chain_def)
  have len: "len ?ds = Inr 15"
    by (simp add: len_def WalkbackDataset_len_def list_getitem_def)
  have "WalkbackDataset_init ?x rev (map uminus) 1 2 = Inr ?ds
      \<and> (\<forall>t::int list. length (rev t) = length t)
      \<and> (\<forall>t::int list. length (map uminus t) = length t)
      \<and> (0::int) \<le> 1 \<and> len ?ds = Inr 15 \<and> (0::int) \<le> 13 \<and> (13::int) < 15"
    using init len by simp
  note concl = getitem_matches_enumeration [of ?x rev "map uminus" 1 2 ?ds 15 13, THEN mp, OF this]
  from concl have enum: "WalkbackDataset_getitem ?ds 13 = Inr (enumerate_dataset ?ds ! nat 13)"
    by (rule conjunct2 [THEN conjunct2])
  from concl have get: "WalkbackDataset_getitem ?ds 13 = Inr (- 5, 5)"
    by (simp add: Let_def)
  from get enum have "enumerate_dataset ?ds ! 13 = (- 5, 5)" by simp
  with get init show ?thesis by simp
qed

subsection \<open>Indices out of range\<close>

text \<open>
  From the length on, every index fails with \<open>IndexError\<close>, not by the guard of
  the accessor but by the indexing of the stored lists: the index names either
  a batch record or a chain position that does not exist.
\<close>

lemma getitem_beyond_length:
  assumes bs: "0 < bs" "self_batch_size self = int bs"
    and n: "0 < n" "self_n self = int n"
    and ne: "self_data self \<noteq> []"
    and lastb: "0 < length (fst (last (self_data self)))"
    and chains: "\<forall>r\<in>set (self_data self). length (snd r) = n"
    and j: "(length (self_data self) - 1) * (bs * n)
              + n * length (fst (last (self_data self))) \<le> j"
  shows "WalkbackDataset_getitem self (int j) = Inl IndexError"
proof -
  let ?data = "self_data self"
  let ?m = "bs * n"
  let ?b = "j div ?m"
  let ?k = "j mod ?m"
  from bs n have m: "0 < ?m" by simp
  from ne obtain K' where K: "length ?data = Suc K'" by (cases ?data) auto
  have rc: "range_check self (int j) = Inr False" by (simp add: range_check_def)
  have stride: "self_batch_size self * self_n self = int ?m" using bs n by simp
  have bi: "int j div int ?m = int ?b" by (simp add: zdiv_int)
  have ki: "int j mod int ?m = int ?k" by (simp add: zmod_int)
  show ?thesis
  proof (cases "?b < length ?data")
    case False
    then have "list_getitem ?data (int ?b) = Inl IndexError"
      by (intro list_getitem_out_of_range) simp
    then show ?thesis
      unfolding WalkbackDataset_getitem_def rc stride Let_def bi ki
      using m by simp
  next
    case True
    from j K have "K' * ?m \<le> j" by simp
    with m have "K' \<le> ?b" by (simp add: less_eq_div_iff_mult_less_eq)
    with True K have b: "?b = K'" by simp
    with K ne have r: "?data ! ?b = last ?data" by (simp add: last_conv_nth)
    let ?l = "length (fst (last ?data))"
    have "j = ?b * ?m + ?k" by (rule div_mult_mod_eq [symmetric])
    with b have "j = K' * ?m + ?k" by simp
    with j K have "n * ?l \<le> ?k" by simp
    with lastb have c: "n \<le> ?k div ?l" by (simp add: less_eq_div_iff_mult_less_eq)
    from ne have "last ?data \<in> set ?data" by simp
    with chains have "length (snd (last ?data)) = n" by simp
    with c have g2: "list_getitem (snd (last ?data)) (int (?k div ?l)) = Inl IndexError"
      by (intro list_getitem_out_of_range) simp
    from True r have g1: "list_getitem ?data (int ?b) = Inr (fst (last ?data), snd (last ?data))"
      by (simp add: list_getitem_nat)
    have ci: "int ?k div int ?l = int (?k div ?l)" by (simp add: zdiv_int)
    show ?thesis
      unfolding WalkbackDataset_getitem_def rc stride Let_def bi ki
      using m lastb by (simp add: g1 case_prod_beta ci g2)
  qed
qed

lemma getitem_from_length_on:
  assumes init: "WalkbackDataset_init x model corrupt n batch_size = Inr ds"
    and model: "\<And>t. length (model t) = length t"
    and corrupt: "\<And>t. length (corrupt t) = length t"
    and n: "0 \<le> n" and L: "len ds = Inr L" and i: "L \<le> i"
  shows "WalkbackDataset_getitem ds i = Inl IndexError"
proof -
  let ?bs = "nat batch_size"
  let ?n = "nat (n + 2)"
  let ?data = "self_data ds"
  let ?len = "(length ?data - 1) * (?bs * ?n) + ?n * length (fst (last ?data))"
  from len_Inr_nonempty [OF init L] have x: "x \<noteq> []" .
  note wf = init_well_formed [OF init x model corrupt n]
  from wf(9) have chain_len: "\<forall>r\<in>set ?data. length (snd r) = ?n" by simp
  from wf(5) obtain K' where K: "length ?data = Suc K'" by (cases ?data) auto
  from wf(5) have "WalkbackDataset_len ds
      = Inr ((int (length ?data) - 1) * self_batch_size ds * self_n ds
             + self_n ds * int (length (fst (last ?data))))"
    by (simp add: WalkbackDataset_len_def list_getitem_last)
  also have "(int (length ?data) - 1) * self_batch_size ds * self_n ds
             + self_n ds * int (length (fst (last ?data))) = int ?len"
    unfolding wf(2) wf(4) K by (simp add: mult.assoc)
  finally have len_val: "WalkbackDataset_len ds = Inr (int ?len)" .
  define N where "N = ?len"
  with len_val have "WalkbackDataset_len ds = Inr (int N)" by simp
  with L have LN: "L = int N" by (simp add: len_def)
  with i have nonneg: "0 \<le> i" and "N \<le> nat i" by simp_all
  then have j: "?len \<le> nat i" by (simp only: N_def)
  from nonneg have ij: "int (nat i) = i" by simp
  from getitem_beyond_length [OF wf(1) wf(2) wf(3) wf(4) wf(5) wf(7) chain_len j] ij
  show ?thesis by (simp only:)
qed

text \<open>
  C2 asks that element access fail for every negative index and for every
  index from the length on. The guard of the accessor, \<open>0 > i > len(self)\<close>, holds
  for no index, so a negative index is not refused: the floor division and the
  indexing from the end carry it into the stored records. In the dataset of
  two samples in one batch of two with walk-back depth \<open>0\<close>, whose length is
  \<open>4\<close>, \<open>get(-1)\<close> returns the pair that \<open>get(3)\<close> returns, while \<open>get(4)\<close> fails
  with \<open>IndexError\<close>.
\<close>

theorem getitem_minus_one_returns_last_pair:
  "WalkbackDataset_init [1::int, 2] rev (map uminus) 0 2
     = Inr \<lparr> self_model = rev, self_corrupt = map uminus, self_n = 2, self_batch_size = 2,
             self_data = [([1, 2], [[1, 2], [- 1, - 2]])] \<rparr>
   \<and> len \<lparr> self_model = rev, self_corrupt = map uminus, self_n = 2, self_batch_size = 2,
             self_data = [([1::int, 2], [[1, 2], [- 1, - 2]])] \<rparr> = Inr 4
   \<and> WalkbackDataset_getitem
         \<lparr> self_model = rev, self_corrupt = map uminus, self_n = 2, self_batch_size = 2,
           self_data = [([1::int, 2], [[1, 2], [- 1, - 2]])] \<rparr> (- 1) = Inr (- 2, 2)
   \<and> WalkbackDataset_getitem
         \<lparr> self_model = rev, self_corrupt = map uminus, self_n = 2, self_batch_size = 2,
           self_data = [([1::int, 2], [[1, 2], [- 1, - 2]])] \<rparr> 3 = Inr (- 2, 2)
   \<and> WalkbackDataset_getitem
         \<lparr> self_model = rev, self_corrupt = map uminus, self_n = 2, self_batch_size = 2,
           self_data = [([1::int, 2], [[1, 2], [- 1, - 2]])] \<rparr> 4 = Inl IndexError"
proof -
  have dl: "DataLoader 2 [1::int, 2] = [[1, 2]]"
    by (simp add: DataLoader_Cons DataLoader_Nil)
  have len: "len \<lparr> self_model = rev, self_corrupt = map uminus, self_n = 2, self_batch_size = 2,
             self_data = [([1::int, 2], [[1, 2], [- 1, - 2]])] \<rparr> = Inr 4"
    by (simp add: len_def WalkbackDataset_len_def list_getitem_def)
  show ?thesis
    by (simp add: WalkbackDataset_init_def Let_def dl WalkbackDataset_chain_def len
        WalkbackDataset_getitem_def range_check_def list_getitem_def)
qed

section \<open>Properties of the stochastic layers\<close>

subsection \<open>Construction\<close>

text \<open>
  C8: a latent shape that is not of rank one makes the construction of either
  layer fail at once, \<open>DiagonalGuassian\<close> with \<open>ValueError\<close> and
  \<open>CategoricalStraightThrough\<close> with the failure of its assertion; the
  constructors take no data. A latent shape of rank one, which a scalar is
  after \<open>as_shape\<close>, makes both constructions succeed.
\<close>

theorem construction_requires_rank_one:
  "(length (as_shape latent_shape) \<noteq> 1 \<longrightarrow>
      DiagonalGuassian_init latent_shape = Inl ValueError
      \<and> CategoricalStraightThrough_init w latent_shape normalise onehot = Inl AssertionError)
   \<and> (length (as_shape latent_shape) = 1 \<longrightarrow>
      DiagonalGuassian_init latent_shape = Inr \<lparr> dg_latent_shape = as_shape latent_shape \<rparr>
      \<and> (\<exists>self. CategoricalStraightThrough_init w latent_shape normalise onehot = Inr self
             \<and> cst_latent_shape self = as_shape latent_shape))
   \<and> length (as_shape (Scalar d)) = 1
   \<and> length (as_shape (Sequence ds)) = length ds"
  by (simp add: DiagonalGuassian_init_def CategoricalStraightThrough_init_def Let_def)

text \<open>
  The latent shape \<open>(2, 3)\<close> is refused by both layers; \<open>(4,)\<close> and the scalar \<open>4\<close>
  are accepted.
\<close>

theorem construction_requires_rank_one_witness:
  "DiagonalGuassian_init (Sequence [2, 3]) = Inl ValueError
   \<and> CategoricalStraightThrough_init [] (Sequence [2, 3]) False True = Inl AssertionError
   \<and> DiagonalGuassian_init (Sequence [4]) = Inr \<lparr> dg_latent_shape = [4] \<rparr>
   \<and> DiagonalGuassian_init (Scalar 4) = Inr \<lparr> dg_latent_shape = [4] \<rparr>
   \<and> CategoricalStraightThrough_init [] (Scalar 4) False True
       = Inr \<lparr> cst_latent_shape = [4], cst_normalise = False, cst_embed = OneHotEmbedding 4 \<rparr>"
proof -
  note two = construction_requires_rank_one [of "Sequence [2, 3]" "[]" False True 4 "[4]"]
  note one = construction_requires_rank_one [of "Sequence [4]" "[]" False True 4 "[4]"]
  note scalar = construction_requires_rank_one [of "Scalar 4" "[]" False True 4 "[4]"]
  have "CategoricalStraightThrough_init [] (Scalar 4) False True
       = Inr \<lparr> cst_latent_shape = [4], cst_normalise = False, cst_embed = OneHotEmbedding 4 \<rparr>"
    by (simp add: CategoricalStraightThrough_init_def)
  with two one scalar show ?thesis by simp
qed

subsection \<open>The shapes that \<open>DiagonalGuassian.forward\<close> returns\<close>

text \<open>
  C9: for \<open>mu\<close> and \<open>logvar\<close> of one shape \<open>(N, ...)\<close> whose trailing dimensions
  hold \<open>m * d\<close> numbers with \<open>m > 1\<close>, where \<open>d\<close> is the latent dimension,
  \<open>forward\<close> succeeds; the sample it returns has the shape of the input, while
  the \<open>mu\<close> and \<open>logvar\<close> it returns have the shape \<open>(N * m, d)\<close>, which is not the
  shape of the input, and the elements of the input.
\<close>

theorem forward_returns_flattened_parameters:
  "shape mu = shape logvar \<and> shape mu = N # rest \<and> prod_list rest = m * d \<and> 1 < m \<and> 0 < d \<longrightarrow>
     (\<exists>sample mu' logvar'.
        DiagonalGuassian_forward \<lparr> dg_latent_shape = [d] \<rparr> noise mu logvar
          = Inr (sample, mu', logvar')
        \<and> shape sample = shape mu
        \<and> shape mu' = [N * m, d] \<and> shape logvar' = [N * m, d]
        \<and> shape mu' \<noteq> shape mu \<and> shape logvar' \<noteq> shape logvar
        \<and> elems mu' = elems mu \<and> elems logvar' = elems logvar)"
proof
  assume a: "shape mu = shape logvar \<and> shape mu = N # rest \<and> prod_list rest = m * d \<and> 1 < m \<and> 0 < d"
  then have same: "shape logvar = shape mu" and sh: "shape mu = N # rest"
    and rest: "prod_list rest = m * d" and m: "1 < m" and d: "0 < d"
    by (auto elim: conjE)
  from sh rest have "numel mu = N * m * d" by (simp add: numel_def)
  moreover from same have "numel logvar = numel mu" by (simp add: numel_def)
  ultimately have numel: "numel mu = N * m * d" "numel logvar = N * m * d" by simp_all
  from numel d have r1: "reshape_rows mu d = Inr (mu \<lparr> shape := [N * m, d] \<rparr>)"
    and r2: "reshape_rows logvar d = Inr (logvar \<lparr> shape := [N * m, d] \<rparr>)"
    by (simp_all add: reshape_rows_def)
  have differ: "[N * m, d] \<noteq> N # rest"
  proof
    assume "[N * m, d] = N # rest"
    then have "rest = [d]" by simp
    with rest m d show False by simp
  qed
  from same sh r1 r2 differ numel show "\<exists>sample mu' logvar'.
        DiagonalGuassian_forward \<lparr> dg_latent_shape = [d] \<rparr> noise mu logvar
          = Inr (sample, mu', logvar')
        \<and> shape sample = shape mu
        \<and> shape mu' = [N * m, d] \<and> shape logvar' = [N * m, d]
        \<and> shape mu' \<noteq> shape mu \<and> shape logvar' \<noteq> shape logvar
        \<and> elems mu' = elems mu \<and> elems logvar' = elems logvar"
    by (simp add: DiagonalGuassian_forward_def and_then_def list_getitem_def Let_def
        view_def numel_def pointwise2_def pointwise_def normal_def)
qed

text \<open>
  An input of shape \<open>(2, 4)\<close> with latent dimension \<open>2\<close>: the sample has the shape
  \<open>(2, 4)\<close>, the returned parameters have the shape \<open>(4, 2)\<close>.
\<close>

theorem forward_returns_flattened_parameters_witness:
  "(case DiagonalGuassian_forward \<lparr> dg_latent_shape = [2] \<rparr> (\<lambda>k. 0)
           \<lparr> shape = [2, 4], elems = [0, 0, 0, 0, 0, 0, 0, 0] \<rparr>
           \<lparr> shape = [2, 4], elems = [0, 0, 0, 0, 0, 0, 0, 0] \<rparr> of
      Inl e \<Rightarrow> []
    | Inr (sample, mu', logvar') \<Rightarrow> [shape sample, shape mu', shape logvar'])
   = [[2, 4], [4, 2], [4, 2]]"
proof -
  let ?t = "\<lparr> shape = [2, 4], elems = [0, 0, 0, 0, 0, 0, 0, 0] \<rparr>"
  from forward_returns_flattened_parameters [of ?t ?t 2 "[4]" 2 2 "\<lambda>k. 0"]
  obtain sample mu' logvar' where
    "DiagonalGuassian_forward \<lparr> dg_latent_shape = [2] \<rparr> (\<lambda>k. 0) ?t ?t = Inr (sample, mu', logvar')"
    "shape sample = [2, 4]" "shape mu' = [4, 2]" "shape logvar' = [4, 2]"
    by auto
  then show ?thesis by simp
qed

subsection \<open>The divergence of a distribution from itself\<close>

text \<open>
  Summing over the last axis a tensor that holds the same number everywhere
  gives, for each row, that number times the last dimension.
\<close>

lemma prod_list_butlast_last: "s \<noteq> [] \<Longrightarrow> prod_list (butlast s) * last s = prod_list s"
  by (induction s) (simp_all add: mult.assoc)

lemma row_of_constant:
  assumes "s \<noteq> []" and "shape t = s" and "elems t = replicate (prod_list s) c"
    and "r < prod_list (butlast s)"
  shows "row t r = replicate (last s) c"
proof -
  let ?d = "last s"
  from assms(4) have "Suc r \<le> prod_list (butlast s)" by simp
  then have "Suc r * ?d \<le> prod_list (butlast s) * ?d" by (rule mult_le_mono1)
  with assms(1) have "r * ?d + ?d \<le> prod_list s" by (simp add: prod_list_butlast_last)
  then have "min ?d (prod_list s - r * ?d) = ?d" by simp
  with assms(2,3) show ?thesis by (simp add: row_def)
qed

lemma sum_last_constant:
  assumes "s \<noteq> []" and "shape t = s" and "elems t = replicate (prod_list s) c"
  shows "sum_last t = \<lparr> shape = butlast s,
                        elems = replicate (prod_list (butlast s)) (real (last s) * c) \<rparr>"
proof -
  have "map sum_list (rows t) = replicate (prod_list (butlast s)) (real (last s) * c)"
    unfolding rows_def assms(2)
    by (rule nth_equalityI) (simp_all add: row_of_constant [OF assms] sum_list_replicate)
  with assms(1,2) show ?thesis by (simp add: sum_last_def)
qed

lemma kl_terms_self:
  assumes "length l = length m"
  shows "map2 (+)
           (map2 (+) (map2 (-) l l)
              (map2 (*) (map2 (*) (map2 (-) m m) (map (\<lambda>v. 1 / v) (map exp l))) (map2 (-) m m)))
           (map2 (*) (map (\<lambda>v. 1 / v) (map exp l)) (map exp l))
         = replicate (length m) (1::real)"
  using assms by (intro nth_equalityI) simp_all

lemma kl_terms_standard:
  "map2 (-) (map2 (+) (map (\<lambda>v. v ^ 2) (replicate k (0::real))) (map exp (replicate k 0)))
        (replicate k 0)
     = replicate k 1"
  by (intro nth_equalityI) simp_all

text \<open>
  C7: for every well-formed \<open>mu\<close> and \<open>logvar\<close> of one shape with at least one
  axis, \<open>kl_divergence(mu, logvar, mu, logvar)\<close> is the tensor of the leading
  axes that holds \<open>0\<close> everywhere; and so is, in the mode against the standard
  normal distribution, \<open>kl_divergence(0, 0)\<close> for the tensor \<open>0\<close> of any shape
  with at least one axis. The numbers are real numbers, so the equalities are
  exact.
\<close>

theorem kl_divergence_self_zero:
  "(well_formed mu \<and> well_formed logvar \<and> shape logvar = shape mu \<and> shape mu \<noteq> [] \<longrightarrow>
      kl_divergence mu logvar (Some mu) (Some logvar)
        = Inr \<lparr> shape = butlast (shape mu),
                elems = replicate (prod_list (butlast (shape mu))) 0 \<rparr>)
   \<and> (s \<noteq> [] \<longrightarrow>
      kl_divergence \<lparr> shape = s, elems = replicate (prod_list s) 0 \<rparr>
                    \<lparr> shape = s, elems = replicate (prod_list s) 0 \<rparr> None None
        = Inr \<lparr> shape = butlast s, elems = replicate (prod_list (butlast s)) 0 \<rparr>)"
proof (intro conjI impI)
  assume "well_formed mu \<and> well_formed logvar \<and> shape logvar = shape mu \<and> shape mu \<noteq> []"
  then have mu: "length (elems mu) = prod_list (shape mu)"
    and logvar: "length (elems logvar) = prod_list (shape mu)"
    and same: "shape logvar = shape mu" and ne: "shape mu \<noteq> []"
    by (auto simp add: well_formed_def numel_def)
  let ?ivar2 = "pointwise (\<lambda>v. 1 / v) (pointwise exp logvar)"
  let ?dmu = "pointwise2 (-) mu mu"
  let ?terms = "pointwise2 (+)
                  (pointwise2 (+) (pointwise2 (-) logvar logvar)
                     (pointwise2 (*) (pointwise2 (*) ?dmu ?ivar2) ?dmu))
                  (pointwise2 (*) ?ivar2 (pointwise exp logvar))"
  from mu logvar have "length (elems logvar) = length (elems mu)" by simp
  from kl_terms_self [OF this] mu
  have "elems ?terms = replicate (prod_list (shape mu)) 1"
    by (simp add: pointwise_def pointwise2_def)
  moreover from same have "shape ?terms = shape mu"
    by (simp add: pointwise_def pointwise2_def)
  ultimately have sum: "sum_last ?terms
      = \<lparr> shape = butlast (shape mu),
          elems = replicate (prod_list (butlast (shape mu))) (real (last (shape mu)) * 1) \<rparr>"
    by (intro sum_last_constant [OF ne])
  from ne have d: "list_getitem (shape mu) (- 1) = Inr (last (shape mu))"
    by (rule list_getitem_last)
  show "kl_divergence mu logvar (Some mu) (Some logvar)
        = Inr \<lparr> shape = butlast (shape mu),
                elems = replicate (prod_list (butlast (shape mu))) 0 \<rparr>"
    unfolding kl_divergence_def Let_def
    by (simp add: same sum d and_then_def) (simp add: pointwise_def)
next
  assume ne: "s \<noteq> []"
  let ?z = "\<lparr> shape = s, elems = replicate (prod_list s) 0 \<rparr>"
  let ?terms = "pointwise2 (-)
                  (pointwise2 (+) (pointwise (\<lambda>v. v ^ 2) ?z) (pointwise exp ?z)) ?z"
  have "elems ?terms = replicate (prod_list s) 1"
    using kl_terms_standard [of "prod_list s"] by (simp add: pointwise_def pointwise2_def)
  moreover have "shape ?terms = s"
    by (simp add: pointwise_def pointwise2_def)
  ultimately have sum: "sum_last ?terms
      = \<lparr> shape = butlast s, elems = replicate (prod_list (butlast s)) (real (last s) * 1) \<rparr>"
    by (intro sum_last_constant [OF ne])
  from ne have d: "list_getitem s (- 1) = Inr (last s)"
    by (rule list_getitem_last)
  show "kl_divergence ?z ?z None None
        = Inr \<lparr> shape = butlast s, elems = replicate (prod_list (butlast s)) 0 \<rparr>"
    unfolding kl_divergence_def Let_def
    by (simp add: sum d and_then_def) (simp add: pointwise_def)
qed

text \<open>
  One distribution of dimension two against itself, and the standard normal
  distribution of dimension one, twice, against the standard normal.
\<close>

theorem kl_divergence_self_zero_witness:
  "kl_divergence \<lparr> shape = [1, 2], elems = [1, 2] \<rparr> \<lparr> shape = [1, 2], elems = [3, - 1] \<rparr>
       (Some \<lparr> shape = [1, 2], elems = [1, 2] \<rparr>) (Some \<lparr> shape = [1, 2], elems = [3, - 1] \<rparr>)
     = Inr \<lparr> shape = [1], elems = [0] \<rparr>
   \<and> kl_divergence \<lparr> shape = [2, 1], elems = [0, 0] \<rparr> \<lparr> shape = [2, 1], elems = [0, 0] \<rparr>
       None None
     = Inr \<lparr> shape = [2], elems = [0, 0] \<rparr>"
proof -
  have two: "replicate 2 (0::real) = [0, 0]" by (simp add: numeral_2_eq_2)
  from kl_divergence_self_zero [of "\<lparr> shape = [1, 2], elems = [1, 2] \<rparr>"
      "\<lparr> shape = [1, 2], elems = [3, - 1] \<rparr>" "[2, 1]"] two
  show ?thesis by (simp add: well_formed_def numel_def)
qed

end
